theory Spec2Isabelle
  imports Main "HOL-Library.Char_ord" "HOL-Library.List_Lexorder"
begin

section \<open>Data model of rss\_archiver.py\<close>

text \<open>
  The program keeps four SQLite tables (\<open>sources\<close>, \<open>articles\<close>, \<open>tags\<close>,
  \<open>article_tags\<close>), a tree of compressed archive files and a log file. The model keeps
  them in one record. A table is the list of its rows in insertion order; a table that
  does not exist yet is the empty list, which is what \<open>CREATE TABLE IF NOT EXISTS\<close>
  makes of it. Text columns are strings, one \<open>char\<close> standing for one character of the
  Python string. Instants of time are integers counting microseconds, the resolution of
  Python's \<open>datetime\<close>.
\<close>

record source =
  s_id :: nat
  s_name :: string
  s_url :: string

text \<open>
  \<open>published\<close> and \<open>scraped_at\<close> are nullable TEXT columns and the code tests both for
  NULL, so they are options. \<open>source_id\<close> holds what \<open>save_source\<close> returned, which
  may be Python's \<open>None\<close>.
\<close>

record article =
  aid :: nat
  title :: string
  link :: string
  published :: "string option"
  content :: string
  scraped_at :: "string option"
  source_id :: "nat option"

text \<open>The dictionary that \<open>archive_old_articles\<close> dumps for one article.\<close>

record archived =
  r_id :: nat
  r_title :: string
  r_link :: string
  r_published :: "string option"
  r_content :: string
  r_source_id :: "nat option"

text \<open>
  An archive file lives at \<open>ARCHIVE_DIR/<year>/<month>/<file name>\<close>. The source builds
  the key \<open>f"{year}/{month:02d}"\<close> and splits it at the slash again; the model keeps
  the pair of numbers.
\<close>

type_synonym month_key = "nat \<times> nat"

record archive_file =
  f_dir :: month_key
  f_name :: string
  f_records :: "archived list"

datatype exn = ParserError | OSError | FeedError string

datatype log_entry =
    DatabaseInitialized
  | SourceSaved string string
  | SourceAlreadyExists string string
  | SourceRenamed nat string
  | SourceDeleted nat
  | ArticleSavedAndScraped string
  | ArticleSaved string
  | ArticleUpdatedAndRescraped string
  | ArticleAlreadyExists string
  | FetchedFeed string
  | ErrorFetchingFeed string exn
  | ErrorFetchingArticle string
  | ErrorParsingArticle string
  | NothingToArchive
  | ErrorParsingDate nat
  | ArchivedArticles nat month_key string
  | ErrorArchiving month_key string
  | RemovedArticles nat

text \<open>
  \<open>seq_sources\<close>, \<open>seq_articles\<close> and \<open>seq_tags\<close> are the AUTOINCREMENT counters of
  the three tables (the largest id handed out so far). \<open>page_requests\<close> is the trace of
  the article pages requested over the network, oldest first.
\<close>

record state =
  sources :: "source list"
  articles :: "article list"
  tags :: "(nat \<times> string) list"
  article_tags :: "(nat \<times> nat) list"
  seq_sources :: nat
  seq_articles :: nat
  seq_tags :: nat
  archive_dirs :: "month_key list"
  archive_files :: "archive_file list"
  page_requests :: "string list"
  log :: "log_entry list"

subsection \<open>What the program does not define itself\<close>

text \<open>
  The libraries, the network and the file system are parameters of the model.
  \<open>dateutil_parse\<close> is \<open>dateutil.parser.parse\<close> (\<open>None\<close> when it raises) and gives the
  year, the month and the instant of the date it read. \<open>sqlite_datetime\<close> is SQLite's
  \<open>datetime()\<close> function (\<open>None\<close> for NULL). \<open>isoformat\<close> prints an instant as
  \<open>datetime.isoformat\<close> does. \<open>file_name_for\<close> is the name
  \<open>articles_<date>_<time>.json.gz\<close> formed from the clock when the group of a month
  is written. \<open>makedirs_ok\<close> and \<open>gzip_write_ok\<close> say whether \<open>os.makedirs\<close> and the
  write of the compressed file go through.
\<close>

record feed_entry =
  e_title :: string
  e_link :: string
  e_published :: "string option"
  e_updated :: "string option"
  e_content :: "string list option"
  e_summary :: "string option"

record feed =
  bozo :: bool
  bozo_exception :: string
  feed_title :: "string option"
  feed_link :: "string option"
  entries :: "feed_entry list"

datatype parse_outcome = ParseRaised string | Parsed feed

datatype http_outcome =
    RequestFailed
  | SoupFailed
  | Html "string list option" "string list"

record datetime =
  year :: nat
  month :: nat
  instant :: int

record world =
  feedparser_parse :: "string \<Rightarrow> parse_outcome"
  requests_get :: "string \<Rightarrow> http_outcome"
  html2text_handle :: "string \<Rightarrow> string"
  sqlite_datetime :: "string \<Rightarrow> string option"
  dateutil_parse :: "string \<Rightarrow> datetime option"
  isoformat :: "int \<Rightarrow> string"
  file_name_for :: "month_key \<Rightarrow> string"
  makedirs_ok :: "month_key \<Rightarrow> bool"
  gzip_write_ok :: "month_key \<Rightarrow> string \<Rightarrow> bool"

definition CACHE_DURATION_HOURS :: int where
  "CACHE_DURATION_HOURS = 24"

definition ARCHIVE_THRESHOLD_DAYS :: int where
  "ARCHIVE_THRESHOLD_DAYS = 30"

definition microseconds_per_hour :: int where
  "microseconds_per_hour = 3600000000"

definition microseconds_per_day :: int where
  "microseconds_per_day = 86400000000"

definition append_log :: "log_entry \<Rightarrow> state \<Rightarrow> state" where
  "append_log e st = st\<lparr>log := log st @ [e]\<rparr>"

section \<open>Database functions\<close>

definition fresh_db :: state where
  "fresh_db = \<lparr>sources = [], articles = [], tags = [], article_tags = [],
     seq_sources = 0, seq_articles = 0, seq_tags = 0,
     archive_dirs = [], archive_files = [], page_requests = [], log = []\<rparr>"

text \<open>
  \<open>initialize_db\<close>: four \<open>CREATE TABLE IF NOT EXISTS\<close> statements and a log line. No
  row of an existing table changes.
\<close>

definition initialize_db :: "state \<Rightarrow> state" where
  "initialize_db st = append_log DatabaseInitialized st"

text \<open>
  \<open>save_source\<close>: the INSERT raises \<open>IntegrityError\<close> exactly when a row with this
  \<open>url\<close> exists (the only constraint of the table besides the generated key); the
  handler then reads the id of that row back. The result is the value of
  \<open>return source_id\<close>.
\<close>

definition save_source :: "string \<Rightarrow> string \<Rightarrow> state \<Rightarrow> nat option \<times> state" where
  "save_source name url st =
     (case find (\<lambda>s. s_url s = url) (sources st) of
        None \<Rightarrow>
          (let i = Suc (seq_sources st)
           in (Some i,
               append_log (SourceSaved name url)
                 (st\<lparr>sources := sources st @ [\<lparr>s_id = i, s_name = name, s_url = url\<rparr>],
                     seq_sources := i\<rparr>)))
      | Some row \<Rightarrow> (Some (s_id row), append_log (SourceAlreadyExists name url) st))"

definition update_source_name :: "nat \<Rightarrow> string \<Rightarrow> state \<Rightarrow> state" where
  "update_source_name i new_name st =
     append_log (SourceRenamed i new_name)
       (st\<lparr>sources := map (\<lambda>s. if s_id s = i then s\<lparr>s_name := new_name\<rparr> else s) (sources st)\<rparr>)"

definition delete_source :: "nat \<Rightarrow> state \<Rightarrow> state" where
  "delete_source i st =
     append_log (SourceDeleted i) (st\<lparr>sources := filter (\<lambda>s. s_id s \<noteq> i) (sources st)\<rparr>)"

text \<open>
  \<open>save_article\<close>. \<open>now\<close> is the reading of \<open>datetime.utcnow()\<close>. The INSERT (the same
  statement under both values of \<open>scraped_now\<close>) raises \<open>IntegrityError\<close> exactly when
  a row with this \<open>link\<close> exists. The handler updates \<open>content\<close>, \<open>scraped_at\<close> and
  \<open>source_id\<close> when \<open>scraped_now\<close> is set, and only reads the id otherwise.

  \<open>save_article_body\<close> gives the local variable \<open>article_id\<close> at the end of the body
  together with the state. The body ends after \<open>conn.close()\<close> without a \<open>return\<close>
  statement, so the caller of \<open>save_article\<close> receives Python's \<open>None\<close>.
\<close>

definition save_article_body ::
  "world \<Rightarrow> int \<Rightarrow> string \<Rightarrow> string \<Rightarrow> string \<Rightarrow> string \<Rightarrow> nat option \<Rightarrow> bool \<Rightarrow> state
     \<Rightarrow> nat option \<times> state" where
  "save_article_body w now ttl lnk pub cnt src scraped_now st =
     (case find (\<lambda>a. link a = lnk) (articles st) of
        None \<Rightarrow>
          (let i = Suc (seq_articles st);
               row = \<lparr>aid = i, title = ttl, link = lnk, published = Some pub, content = cnt,
                      scraped_at = Some (isoformat w now), source_id = src\<rparr>
           in (Some i,
               append_log (if scraped_now then ArticleSavedAndScraped ttl else ArticleSaved ttl)
                 (st\<lparr>articles := articles st @ [row], seq_articles := i\<rparr>)))
      | Some row \<Rightarrow>
          (if scraped_now then
             (Some (aid row),
              append_log (ArticleUpdatedAndRescraped ttl)
                (st\<lparr>articles :=
                   map (\<lambda>a. if link a = lnk
                             then a\<lparr>content := cnt, scraped_at := Some (isoformat w now),
                                    source_id := src\<rparr>
                             else a) (articles st)\<rparr>))
           else (Some (aid row), append_log (ArticleAlreadyExists ttl) st)))"

definition save_article ::
  "world \<Rightarrow> int \<Rightarrow> string \<Rightarrow> string \<Rightarrow> string \<Rightarrow> string \<Rightarrow> nat option \<Rightarrow> bool \<Rightarrow> state
     \<Rightarrow> nat option \<times> state" where
  "save_article w now ttl lnk pub cnt src scraped_now st =
     (None, snd (save_article_body w now ttl lnk pub cnt src scraped_now st))"

text \<open>
  \<open>add_tags\<close> and \<open>remove_tags\<close>. \<open>INSERT OR IGNORE\<close> adds the tag unless the
  UNIQUE column has it already; the pair is added unless the primary key
  \<open>(article_id, tag_id)\<close> has it already (\<open>IntegrityError\<close>, passed over).
\<close>

definition add_tag :: "nat \<Rightarrow> string \<Rightarrow> state \<Rightarrow> state" where
  "add_tag article_id tag st =
     (let st1 = (if tag \<in> snd ` set (tags st) then st
                 else st\<lparr>tags := tags st @ [(Suc (seq_tags st), tag)],
                         seq_tags := Suc (seq_tags st)\<rparr>)
      in case find (\<lambda>p. snd p = tag) (tags st1) of
           None \<Rightarrow> st1
         | Some tag_row \<Rightarrow>
             (if (article_id, fst tag_row) \<in> set (article_tags st1) then st1
              else st1\<lparr>article_tags := article_tags st1 @ [(article_id, fst tag_row)]\<rparr>))"

definition add_tags :: "nat \<Rightarrow> string list \<Rightarrow> state \<Rightarrow> state" where
  "add_tags article_id tags_to_add st = fold (add_tag article_id) tags_to_add st"

definition remove_tag :: "nat \<Rightarrow> string \<Rightarrow> state \<Rightarrow> state" where
  "remove_tag article_id tag st =
     (case find (\<lambda>p. snd p = tag) (tags st) of
        None \<Rightarrow> st
      | Some tag_row \<Rightarrow>
          st\<lparr>article_tags := filter (\<lambda>p. p \<noteq> (article_id, fst tag_row)) (article_tags st)\<rparr>)"

definition remove_tags :: "nat \<Rightarrow> string list \<Rightarrow> state \<Rightarrow> state" where
  "remove_tags article_id tags_to_remove st = fold (remove_tag article_id) tags_to_remove st"

section \<open>Fetching feeds and article pages\<close>



text \<open>\<open>'\n'.join(...)\<close>\<close>

fun join_lines :: "string list \<Rightarrow> string" where
  "join_lines [] = []"
| "join_lines [x] = x"
| "join_lines (x # y # ys) = x @ CHR 0x0A # join_lines (y # ys)"

text \<open>
  \<open>fetch_full_article\<close>. \<open>requests_get\<close> answers \<open>RequestFailed\<close> when \<open>requests.get\<close>
  or \<open>raise_for_status\<close> raises, \<open>SoupFailed\<close> when the second \<open>try\<close> block raises, and
  otherwise \<open>Html art ps\<close>: \<open>art\<close> holds the texts of the paragraphs of the first
  \<open><article>\<close> element if the page has one, \<open>ps\<close> the texts of all paragraphs of
  the page.
\<close>

definition fetch_full_article :: "world \<Rightarrow> string \<Rightarrow> state \<Rightarrow> string \<times> state" where
  "fetch_full_article w lnk st =
     (let st1 = st\<lparr>page_requests := page_requests st @ [lnk]\<rparr>
      in case requests_get w lnk of
           RequestFailed \<Rightarrow> ([], append_log (ErrorFetchingArticle lnk) st1)
         | SoupFailed \<Rightarrow> ([], append_log (ErrorParsingArticle lnk) st1)
         | Html art ps \<Rightarrow> (join_lines (case art of None \<Rightarrow> ps | Some aps \<Rightarrow> aps), st1))"

section \<open>Resolving the content of a feed entry\<close>

text \<open>
  The cache test of \<open>process_feeds\<close> (the value of \<open>needs_scraping\<close> when the
  \<open>if needs_scraping\<close> is reached). \<open>dateutil.parser.parse\<close> is called outside any
  \<open>try\<close>: when it raises, the exception leaves \<open>process_feeds\<close>.
\<close>

definition needs_scraping :: "world \<Rightarrow> int \<Rightarrow> string \<Rightarrow> state \<Rightarrow> exn + bool" where
  "needs_scraping w now lnk st =
     (case find (\<lambda>a. link a = lnk) (articles st) of
        None \<Rightarrow> Inr True
      | Some row \<Rightarrow>
          (if content row \<noteq> [] \<and> 200 \<le> length (content row) then
             (case scraped_at row of
                None \<Rightarrow> Inr True
              | Some scraped_at_str \<Rightarrow>
                  (if scraped_at_str = [] then Inr True
                   else (case dateutil_parse w scraped_at_str of
                           None \<Rightarrow> Inl ParserError
                         | Some t \<Rightarrow>
                             Inr (\<not> (now - instant t
                                       < CACHE_DURATION_HOURS * microseconds_per_hour)))))
           else Inr True))"

text \<open>The fallback text of an entry before \<open>h.handle\<close> is applied to it.\<close>

definition raw_content :: "feed_entry \<Rightarrow> string" where
  "raw_content e =
     (case e_content e of
        Some (c # cs) \<Rightarrow> c
      | _ \<Rightarrow> (case e_summary e of None \<Rightarrow> [] | Some s \<Rightarrow> s))"

text \<open>
  The part of the loop body that computes \<open>content\<close> and \<open>scraped_now\<close> for an entry.
  In the last branch \<open>content = row[0]\<close> reads the row found by the cache test;
  \<open>needs_scraping\<close> is false only when there is one, so the case without a row is
  never taken.
\<close>

definition resolve_content ::
  "world \<Rightarrow> int \<Rightarrow> feed_entry \<Rightarrow> state \<Rightarrow> (exn + string \<times> bool) \<times> state" where
  "resolve_content w now e st =
     (case needs_scraping w now (e_link e) st of
        Inl x \<Rightarrow> (Inl x, st)
      | Inr True \<Rightarrow>
          (let (full_content, st1) = fetch_full_article w (e_link e) st
           in if full_content \<noteq> [] then (Inr (full_content, True), st1)
              else (Inr (html2text_handle w (raw_content e), False), st1))
      | Inr False \<Rightarrow>
          (case find (\<lambda>a. link a = e_link e) (articles st) of
             None \<Rightarrow> (Inr ([], False), st)
           | Some row \<Rightarrow> (Inr (content row, False), st)))"

text \<open>
  The whole body of the loop over the entries of a feed. \<open>now\<close> is the clock reading of
  the cache test and \<open>save_now\<close> the later one of \<open>save_article\<close>.
\<close>

definition process_entry ::
  "world \<Rightarrow> int \<Rightarrow> int \<Rightarrow> nat option \<Rightarrow> feed_entry \<Rightarrow> state \<Rightarrow> (exn + unit) \<times> state" where
  "process_entry w now save_now src e st =
     (let pub = (case e_published e of
                   Some p \<Rightarrow> p
                 | None \<Rightarrow> (case e_updated e of Some u \<Rightarrow> u | None \<Rightarrow> []))
      in case resolve_content w now e st of
           (Inl x, st1) \<Rightarrow> (Inl x, st1)
         | (Inr (cnt, scraped_now), st1) \<Rightarrow>
             (Inr (), snd (save_article w save_now (e_title e) (e_link e) pub cnt src
                             scraped_now st1)))"

section \<open>Archiving old articles\<close>

text \<open>
  The candidate query: \<open>published IS NOT NULL AND datetime(published) < ?\<close>. SQLite
  compares the two texts byte by byte; a NULL from \<open>datetime()\<close> makes the comparison
  NULL and the row is not selected.
\<close>

definition cutoff_iso :: "world \<Rightarrow> int \<Rightarrow> int \<Rightarrow> string" where
  "cutoff_iso w now threshold_days = isoformat w (now - threshold_days * microseconds_per_day)"

definition is_old :: "world \<Rightarrow> string \<Rightarrow> article \<Rightarrow> bool" where
  "is_old w cutoff a =
     (case published a of
        None \<Rightarrow> False
      | Some p \<Rightarrow> (case sqlite_datetime w p of None \<Rightarrow> False | Some d \<Rightarrow> d < cutoff))"

definition old_articles :: "world \<Rightarrow> int \<Rightarrow> int \<Rightarrow> state \<Rightarrow> article list" where
  "old_articles w now threshold_days st =
     filter (is_old w (cutoff_iso w now threshold_days)) (articles st)"

definition to_record :: "article \<Rightarrow> archived" where
  "to_record a = \<lparr>r_id = aid a, r_title = title a, r_link = link a,
     r_published = published a, r_content = content a, r_source_id = source_id a\<rparr>"

text \<open>
  \<open>archive_dict\<close> is a dictionary of lists; the model keeps its items in insertion order,
  as Python does. A row whose \<open>published\<close> text \<open>dateutil\<close> cannot read (or, were
  it selected, a NULL) raises inside the \<open>try\<close>, is logged and joins no group.
\<close>

fun dict_append :: "month_key \<Rightarrow> archived \<Rightarrow> (month_key \<times> archived list) list
    \<Rightarrow> (month_key \<times> archived list) list" where
  "dict_append k r [] = [(k, [r])]"
| "dict_append k r ((k', rs) # d) =
     (if k' = k then (k', rs @ [r]) # d else (k', rs) # dict_append k r d)"

fun group_by_month :: "world \<Rightarrow> article list \<Rightarrow> (month_key \<times> archived list) list \<Rightarrow> state
    \<Rightarrow> (month_key \<times> archived list) list \<times> state" where
  "group_by_month w [] d st = (d, st)"
| "group_by_month w (a # as) d st =
     (case (case published a of None \<Rightarrow> None | Some p \<Rightarrow> dateutil_parse w p) of
        None \<Rightarrow> group_by_month w as d (append_log (ErrorParsingDate (aid a)) st)
      | Some t \<Rightarrow> group_by_month w as (dict_append (year t, month t) (to_record a) d) st)"

text \<open>
  The loop that writes one file per month. \<open>os.makedirs\<close> stands outside the \<open>try\<close>:
  when it raises, the exception leaves \<open>archive_old_articles\<close> at once. A failure of
  the write is caught and logged, and the loop goes on.
\<close>

fun write_archives :: "world \<Rightarrow> (month_key \<times> archived list) list \<Rightarrow> state
    \<Rightarrow> (exn + unit) \<times> state" where
  "write_archives w [] st = (Inr (), st)"
| "write_archives w ((k, rs) # d) st =
     (if \<not> makedirs_ok w k then (Inl OSError, st)
      else
        (let st1 = (if k \<in> set (archive_dirs st) then st
                    else st\<lparr>archive_dirs := archive_dirs st @ [k]\<rparr>);
             file_name = file_name_for w k
         in if gzip_write_ok w k file_name
            then write_archives w d
                   (append_log (ArchivedArticles (length rs) k file_name)
                      (st1\<lparr>archive_files := archive_files st1 @
                              [\<lparr>f_dir = k, f_name = file_name, f_records = rs\<rparr>]\<rparr>))
            else write_archives w d (append_log (ErrorArchiving k file_name) st1)))"

definition delete_articles :: "nat list \<Rightarrow> state \<Rightarrow> state" where
  "delete_articles article_ids st =
     st\<lparr>articles := filter (\<lambda>a. aid a \<notin> set article_ids) (articles st)\<rparr>"

definition archive_old_articles :: "world \<Rightarrow> int \<Rightarrow> int \<Rightarrow> state \<Rightarrow> (exn + unit) \<times> state" where
  "archive_old_articles w now threshold_days st =
     (let olds = old_articles w now threshold_days st
      in if olds = [] then (Inr (), append_log NothingToArchive st)
         else
           (let (archive_dict, st1) = group_by_month w olds [] st
            in case write_archives w archive_dict st1 of
                 (Inl x, st2) \<Rightarrow> (Inl x, st2)
               | (Inr u, st2) \<Rightarrow>
                   (let article_ids = map aid olds
                    in (Inr (),
                        append_log (RemovedArticles (length article_ids))
                          (delete_articles article_ids st2)))))"

section \<open>Searching by tags\<close>

text \<open>
  \<open>search_articles\<close>. \<open>tag_ids\<close> are the ids of the rows of \<open>tags\<close> whose tag is among
  the search tags. The second query joins \<open>articles\<close> with \<open>article_tags\<close>, keeps the
  pairs whose tag id is in \<open>tag_ids\<close>, groups by article and keeps the groups that
  count as many distinct tag ids as \<open>tag_ids\<close> has entries.
\<close>

definition matched_tag_ids :: "nat list \<Rightarrow> article \<Rightarrow> state \<Rightarrow> nat list" where
  "matched_tag_ids tag_ids a st =
     map snd (filter (\<lambda>p. fst p = aid a \<and> snd p \<in> set tag_ids) (article_tags st))"

definition search_row :: "article \<Rightarrow> nat \<times> string \<times> string \<times> string option" where
  "search_row a = (aid a, title a, link a, published a)"

definition search_articles ::
  "string list \<Rightarrow> state \<Rightarrow> (nat \<times> string \<times> string \<times> string option) list" where
  "search_articles search_tags st =
     (if search_tags = [] then []
      else
        (let tag_ids = map fst (filter (\<lambda>p. snd p \<in> set search_tags) (tags st))
         in if tag_ids = [] then []
            else map search_row
                   (filter (\<lambda>a. matched_tag_ids tag_ids a st \<noteq> [] \<and>
                                 length (remdups (matched_tag_ids tag_ids a st)) = length tag_ids)
                      (articles st))))"

section \<open>Vocabulary of the properties\<close>

text \<open>
  A concrete world and a concrete store, on which the theorems below are instantiated.
  In this world one feed can be fetched and no article page can; SQLite reads the one
  date text \<open>2020-01-15 10:00:00\<close>, and \<open>dateutil\<close> reads that text and the ISO
  texts of two instants.
\<close>

definition example_world :: world where
  "example_world =
     \<lparr>feedparser_parse = (\<lambda>u. if u = ''http://a/feed''
          then Parsed \<lparr>bozo = False, bozo_exception = [], feed_title = Some ''A'',
                 feed_link = Some ''http://a'', entries = []\<rparr>
          else ParseRaised ''timed out''),
      requests_get = (\<lambda>l. RequestFailed),
      html2text_handle = (\<lambda>s. s),
      sqlite_datetime = (\<lambda>p. if p = ''2020-01-15 10:00:00'' then Some p else None),
      dateutil_parse = (\<lambda>p.
          if p = ''2020-01-15 10:00:00'' \<or> p = ''2020-01-15T10:00:00''
          then Some \<lparr>year = 2020, month = 1, instant = 1579082400000000\<rparr>
          else if p = ''2024-07-01T00:00:00''
          then Some \<lparr>year = 2024, month = 7, instant = 1719792000000000\<rparr>
          else None),
      isoformat = (\<lambda>t.
          if t = 1579082400000000 then ''2020-01-15T10:00:00''
          else if t = 1717200000000000 then ''2024-06-01T00:00:00''
          else if t = 1719792000000000 then ''2024-07-01T00:00:00''
          else ''1970-01-01T00:00:00''),
      file_name_for = (\<lambda>k. ''articles_2024_07_01_000000.json.gz''),
      makedirs_ok = (\<lambda>k. True),
      gzip_write_ok = (\<lambda>k n. True)\<rparr>"

text \<open>
  A world in which SQLite reads \<open>2020-02-30\<close> (it accepts any day up to 31 and
  normalises the date) while \<open>dateutil\<close> rejects it, and a store whose only article
  carries that text.
\<close>

definition lenient_sqlite_world :: world where
  "lenient_sqlite_world = example_world\<lparr>sqlite_datetime :=
     (\<lambda>p. if p = ''2020-02-30'' then Some ''2020-03-01 00:00:00'' else None)\<rparr>"

definition one_misdated_article :: state where
  "one_misdated_article =
     snd (save_article example_world 1579082400000000 ''Misdated'' ''http://a/3''
            ''2020-02-30'' ''text'' (Some 1) False fresh_db)"

text \<open>The first world with a disk on which no compressed file can be written.\<close>

definition full_disk_world :: world where
  "full_disk_world = example_world\<lparr>gzip_write_ok := \<lambda>k n. False\<rparr>"

definition one_old_article :: state where
  "one_old_article =
     snd (save_article example_world 1579082400000000 ''Old news'' ''http://a/1''
            ''2020-01-15 10:00:00'' ''body'' (Some 1) True fresh_db)"

text \<open>A store whose only article carries a \<open>published\<close> text that is no date.\<close>

definition one_undated_article :: state where
  "one_undated_article =
     snd (save_article example_world 1579082400000000 ''Undated'' ''http://a/2''
            ''not-a-date'' ''text'' (Some 1) False fresh_db)"

text \<open>
  The invariant of the data model: a row with non-empty \<open>content\<close> has a
  \<open>scraped_at\<close> that is not NULL.
\<close>

definition content_stamped :: "state \<Rightarrow> bool" where
  "content_stamped st = (\<forall>a \<in> set (articles st). content a \<noteq> [] \<longrightarrow> scraped_at a \<noteq> None)"

text \<open>A row with its \<open>scraped_at\<close> blanked, to compare rows up to that column.\<close>

definition forget_scraped_at :: "article \<Rightarrow> article" where
  "forget_scraped_at a = a\<lparr>scraped_at := None\<rparr>"

text \<open>
  The operations of the program that write to the store, with their arguments, and the
  state each leaves behind (also when it ends in an exception).
\<close>

datatype store_op =
    InitializeDb
  | SaveSource string string
  | UpdateSourceName nat string
  | DeleteSource nat
  | SaveArticle int string string string string "nat option" bool
  | AddTags nat "string list"
  | RemoveTags nat "string list"
  | ProcessEntry int int "nat option" feed_entry
  | ArchiveOldArticles int int

fun run_op :: "world \<Rightarrow> store_op \<Rightarrow> state \<Rightarrow> state" where
  "run_op w InitializeDb st = initialize_db st"
| "run_op w (SaveSource name url) st = snd (save_source name url st)"
| "run_op w (UpdateSourceName i new_name) st = update_source_name i new_name st"
| "run_op w (DeleteSource i) st = delete_source i st"
| "run_op w (SaveArticle now ttl lnk pub cnt src scraped_now) st =
     snd (save_article w now ttl lnk pub cnt src scraped_now st)"
| "run_op w (AddTags article_id ts) st = add_tags article_id ts st"
| "run_op w (RemoveTags article_id ts) st = remove_tags article_id ts st"
| "run_op w (ProcessEntry now save_now src e) st = snd (process_entry w now save_now src e st)"
| "run_op w (ArchiveOldArticles now threshold_days) st =
     snd (archive_old_articles w now threshold_days st)"





text \<open>
  Every \<open>scraped_at\<close> in the store is a non-empty text that \<open>dateutil\<close> reads. The
  program writes this column only as \<open>datetime.utcnow().isoformat()\<close>.
\<close>

definition stamps_readable :: "world \<Rightarrow> state \<Rightarrow> bool" where
  "stamps_readable w st =
     (\<forall>a \<in> set (articles st).
        case scraped_at a of
          None \<Rightarrow> True
        | Some s \<Rightarrow> s \<noteq> [] \<and> dateutil_parse w s \<noteq> None)"

text \<open>
  The freshness test in the words of the specification: a row with the link exists, its
  content is non-empty and at least 200 characters long, and the current time minus its
  \<open>scraped_at\<close> is less than 24 hours.
\<close>

definition cache_fresh :: "world \<Rightarrow> int \<Rightarrow> string \<Rightarrow> state \<Rightarrow> bool" where
  "cache_fresh w now lnk st =
     (case find (\<lambda>a. link a = lnk) (articles st) of
        None \<Rightarrow> False
      | Some row \<Rightarrow>
          content row \<noteq> [] \<and> 200 \<le> length (content row) \<and>
          (case scraped_at row of
             None \<Rightarrow> False
           | Some s \<Rightarrow>
               (case dateutil_parse w s of
                  None \<Rightarrow> False
                | Some t \<Rightarrow> now - instant t < 24 * microseconds_per_hour)))"

text \<open>The content stored for a link (empty when no row has the link).\<close>

definition stored_content :: "string \<Rightarrow> state \<Rightarrow> string" where
  "stored_content lnk st =
     (case find (\<lambda>a. link a = lnk) (articles st) of None \<Rightarrow> [] | Some row \<Rightarrow> content row)"

text \<open>A feed entry for the stored link, and a store whose article has a long body.\<close>

definition example_entry :: feed_entry where
  "example_entry = \<lparr>e_title = ''Old news'', e_link = ''http://a/1'',
     e_published = Some ''2020-01-15 10:00:00'', e_updated = None,
     e_content = Some [''full text of the feed''], e_summary = Some ''teaser''\<rparr>"

definition one_long_article :: state where
  "one_long_article =
     snd (save_article example_world 1719792000000000 ''Old news'' ''http://a/1''
            ''2020-01-15 10:00:00'' (replicate 200 (CHR ''x'')) (Some 1) True fresh_db)"

text \<open>
  The records held by the groups of \<open>archive_dict\<close>, and the files that a run of the
  archival adds to the archive tree.
\<close>

definition group_records :: "(month_key \<times> archived list) list \<Rightarrow> archived set" where
  "group_records d = (\<Union>p \<in> set d. set (snd p))"




text \<open>
  The constraints of the \<open>tags\<close> table (\<open>id\<close> is its primary key, \<open>tag\<close> is UNIQUE),
  and the property the specification asks of a search result: the article is associated
  with every tag in the list.
\<close>

definition tags_unique :: "state \<Rightarrow> bool" where
  "tags_unique st = (distinct (map fst (tags st)) \<and> distinct (map snd (tags st)))"

definition carries_all_tags :: "string list \<Rightarrow> article \<Rightarrow> state \<Rightarrow> bool" where
  "carries_all_tags search_tags a st =
     (\<forall>t \<in> set search_tags.
        \<exists>p \<in> set (tags st). snd p = t \<and> (aid a, fst p) \<in> set (article_tags st))"

text \<open>The store with the old article, tagged \<open>python\<close>.\<close>

definition tagged_store :: state where
  "tagged_store = add_tags 1 [''python''] one_old_article"

text \<open>
  The constraints that the hypotheses of the theorems below refer to, as invariants of
  the store: the ids of the articles are distinct and none exceeds the AUTOINCREMENT
  counter; the same for the tags, whose texts are distinct as well. \<open>iso_readable\<close>
  says of the libraries that \<open>dateutil\<close> reads every text that \<open>isoformat\<close> prints.
\<close>

definition iso_readable :: "world \<Rightarrow> bool" where
  "iso_readable w = (\<forall>t. isoformat w t \<noteq> [] \<and> dateutil_parse w (isoformat w t) \<noteq> None)"

definition article_ids_ok :: "state \<Rightarrow> bool" where
  "article_ids_ok st =
     (distinct (map aid (articles st)) \<and>
      (\<forall>i \<in> set (map aid (articles st)). i \<le> seq_articles st))"

definition tag_tables :: "state \<Rightarrow> (nat \<times> string) list \<times> nat" where
  "tag_tables st = (tags st, seq_tags st)"

definition tags_ok :: "state \<Rightarrow> bool" where
  "tags_ok st = (tags_unique st \<and> (\<forall>p \<in> set (tags st). fst p \<le> seq_tags st))"

section \<open>Properties\<close>

subsection \<open>Frame lemmas\<close>

lemma append_log_fields [simp]:
  "articles (append_log e st) = articles st"
  "sources (append_log e st) = sources st"
  "tags (append_log e st) = tags st"
  "article_tags (append_log e st) = article_tags st"
  "archive_files (append_log e st) = archive_files st"
  "archive_dirs (append_log e st) = archive_dirs st"
  "page_requests (append_log e st) = page_requests st"
  "log (append_log e st) = log st @ [e]"
  by (simp_all add: append_log_def)

lemma find_map_link:
  "(\<And>a. link (f a) = link a) \<Longrightarrow>
   find (\<lambda>a. link a = l) (map f xs) = map_option f (find (\<lambda>a. link a = l) xs)"
  by (induction xs) auto

lemma articles_save_article_new:
  "find (\<lambda>a. link a = lnk) (articles st) = None \<Longrightarrow>
   articles (snd (save_article_body w now ttl lnk pub cnt src sn st)) =
     articles st @ [\<lparr>aid = Suc (seq_articles st), title = ttl, link = lnk, published = Some pub,
        content = cnt, scraped_at = Some (isoformat w now), source_id = src\<rparr>]"
  by (simp add: save_article_body_def Let_def)

lemma articles_save_article_scraped:
  "find (\<lambda>a. link a = lnk) (articles st) = Some row \<Longrightarrow>
   articles (snd (save_article_body w now ttl lnk pub cnt src True st)) =
     map (\<lambda>a. if link a = lnk
               then a\<lparr>content := cnt, scraped_at := Some (isoformat w now), source_id := src\<rparr>
               else a) (articles st)"
  by (simp add: save_article_body_def)

lemma articles_save_article_unscraped:
  "find (\<lambda>a. link a = lnk) (articles st) = Some row \<Longrightarrow>
   articles (snd (save_article_body w now ttl lnk pub cnt src False st)) = articles st"
  by (simp add: save_article_body_def)

subsection \<open>Preservation of the invariant, operation by operation\<close>

lemma content_stamped_save_article_body:
  "content_stamped st \<Longrightarrow>
   content_stamped (snd (save_article_body w now ttl lnk pub cnt src sn st))"
  by (cases "find (\<lambda>a. link a = lnk) (articles st)"; cases sn)
     (auto simp: content_stamped_def articles_save_article_new articles_save_article_scraped
        articles_save_article_unscraped)

lemma articles_save_source [simp]: "articles (snd (save_source name url st)) = articles st"
  by (simp add: save_source_def Let_def split: option.splits)

lemma articles_add_tag [simp]: "articles (add_tag i t st) = articles st"
  by (simp add: add_tag_def Let_def split: option.splits)

lemma articles_add_tags [simp]: "articles (add_tags i ts st) = articles st"
  unfolding add_tags_def by (induction ts arbitrary: st) simp_all

lemma articles_remove_tag [simp]: "articles (remove_tag i t st) = articles st"
  by (simp add: remove_tag_def split: option.splits)

lemma articles_remove_tags [simp]: "articles (remove_tags i ts st) = articles st"
  unfolding remove_tags_def by (induction ts arbitrary: st) simp_all

lemma articles_fetch_full_article [simp]:
  "articles (snd (fetch_full_article w l st)) = articles st"
  by (simp add: fetch_full_article_def Let_def split: http_outcome.splits)

lemma articles_resolve_content [simp]:
  "articles (snd (resolve_content w now e st)) = articles st"
proof -
  have "articles st1 = articles st" if "fetch_full_article w l st = (c, st1)" for l c st1
    using articles_fetch_full_article [of w l st] that by simp
  then show ?thesis
    by (auto simp: resolve_content_def split: sum.splits bool.splits option.splits prod.splits)
qed

lemma articles_group_by_month [simp]:
  "articles (snd (group_by_month w as d st)) = articles st"
  by (induction as arbitrary: d st) (simp_all split: option.splits)

lemma articles_write_archives [simp]:
  "articles (snd (write_archives w d st)) = articles st"
  by (induction w d st rule: write_archives.induct) (simp add: Let_def)+

lemma set_articles_archive:
  "set (articles (snd (archive_old_articles w now days st))) \<subseteq> set (articles st)"
proof -
  have "articles (snd (group_by_month w olds [] st)) = articles st" for olds by simp
  then show ?thesis
    by (auto simp: archive_old_articles_def Let_def delete_articles_def
        split: prod.splits sum.splits)
       (metis articles_group_by_month articles_write_archives snd_conv)+
qed

lemma content_stamped_subset:
  "content_stamped st \<Longrightarrow> set (articles st') \<subseteq> set (articles st) \<Longrightarrow> content_stamped st'"
  by (auto simp: content_stamped_def)

lemma content_stamped_process_entry:
  "content_stamped st \<Longrightarrow> content_stamped (snd (process_entry w now save_now src e st))"
proof -
  assume inv: "content_stamped st"
  have "content_stamped (snd (resolve_content w now e st))"
    using inv by (simp add: content_stamped_def)
  then show ?thesis
    by (auto simp: process_entry_def Let_def save_article_def
        split: prod.splits sum.splits intro: content_stamped_save_article_body)
qed

subsection \<open>Content is never stored without its time stamp\<close>

text \<open>
  Claim C9. The freshly created store satisfies the invariant "every article row with
  non-empty content has a non-null \<open>scraped_at\<close>", and every operation on the store
  (initialization, saving, renaming and deleting a source, inserting and updating an
  article, tagging, processing a feed entry, archival with its deletion) preserves it.
\<close>

theorem content_has_stamp_invariant:
  "content_stamped fresh_db \<and>
   (content_stamped st \<longrightarrow> content_stamped (run_op w op st))"
proof
  show "content_stamped fresh_db"
    by (simp add: content_stamped_def fresh_db_def)
  show "content_stamped st \<longrightarrow> content_stamped (run_op w op st)"
  proof
    assume inv: "content_stamped st"
    show "content_stamped (run_op w op st)"
    proof (cases op)
      case (SaveArticle now ttl lnk pub cnt src sn)
      then show ?thesis
        using inv by (simp add: save_article_def content_stamped_save_article_body)
    next
      case (ProcessEntry now save_now src e)
      then show ?thesis
        using inv by (simp add: content_stamped_process_entry)
    next
      case (ArchiveOldArticles now days)
      then show ?thesis
        using inv content_stamped_subset [OF _ set_articles_archive] by simp
    qed (use inv in \<open>simp_all add: content_stamped_def initialize_db_def update_source_name_def
          delete_source_def\<close>)
  qed
qed

theorem content_has_stamp_invariant_witness:
  "content_stamped fresh_db \<and> content_stamped one_old_article \<and>
   content_stamped (run_op example_world
      (SaveArticle 1719792000000000 ''Old news'' ''http://a/1'' ''2020-01-15 10:00:00''
         ''better body'' (Some 1) True) one_old_article)"
proof -
  have h: "content_stamped one_old_article"
    by (simp add: content_stamped_def one_old_article_def save_article_def save_article_body_def
        fresh_db_def append_log_def)
  show ?thesis
    using h content_has_stamp_invariant [of one_old_article example_world
        "SaveArticle 1719792000000000 ''Old news'' ''http://a/1'' ''2020-01-15 10:00:00''
           ''better body'' (Some 1) True"]
    by simp
qed

subsection \<open>What \<open>save_article\<close> does to the table\<close>

lemma find_append_cases:
  "find P (xs @ ys) = (case find P xs of None \<Rightarrow> find P ys | Some x \<Rightarrow> Some x)"
  by (induction xs) simp_all

lemma find_link_after_insert:
  "find (\<lambda>a. link a = lnk) (articles st) = None \<Longrightarrow>
   find (\<lambda>a. link a = lnk)
     (articles (snd (save_article_body w now ttl lnk pub cnt src sn st))) =
     Some \<lparr>aid = Suc (seq_articles st), title = ttl, link = lnk, published = Some pub,
        content = cnt, scraped_at = Some (isoformat w now), source_id = src\<rparr>"
  by (simp add: articles_save_article_new find_append_cases)

lemma find_link_after_update:
  "find (\<lambda>a. link a = lnk) (articles st) = Some row \<Longrightarrow>
   find (\<lambda>a. link a = lnk)
     (articles (snd (save_article_body w now ttl lnk pub cnt src True st))) =
     Some (row\<lparr>content := cnt, scraped_at := Some (isoformat w now), source_id := src\<rparr>)"
proof -
  assume f: "find (\<lambda>a. link a = lnk) (articles st) = Some row"
  then have l: "link row = lnk"
    by (auto simp: find_Some_iff)
  show ?thesis
    using f l by (simp add: articles_save_article_scraped find_map_link)
qed

lemma find_link_after_save:
  "find (\<lambda>a. link a = lnk)
     (articles (snd (save_article_body w now ttl lnk pub cnt src sn st))) \<noteq> None"
proof (cases "find (\<lambda>a. link a = lnk) (articles st)")
  case None
  then show ?thesis by (simp add: find_link_after_insert)
next
  case (Some row)
  then show ?thesis
    by (cases sn) (simp_all add: find_link_after_update articles_save_article_unscraped)
qed

lemma other_rows_kept:
  "filter (\<lambda>a. link a \<noteq> lnk)
     (articles (snd (save_article_body w now ttl lnk pub cnt src sn st))) =
   filter (\<lambda>a. link a \<noteq> lnk) (articles st)"
proof (cases "find (\<lambda>a. link a = lnk) (articles st)")
  case None
  then show ?thesis by (simp add: articles_save_article_new)
next
  case (Some row)
  have "filter (\<lambda>a. link a \<noteq> lnk)
          (map (\<lambda>a. if link a = lnk
                    then a\<lparr>content := cnt, scraped_at := Some (isoformat w now),
                           source_id := src\<rparr>
                    else a) xs) =
        filter (\<lambda>a. link a \<noteq> lnk) xs" for xs
    by (induction xs) auto
  with Some show ?thesis
    by (cases sn) (simp_all add: articles_save_article_scraped articles_save_article_unscraped)
qed

lemma rows_after_scraped_save:
  assumes "a \<in> set (articles (snd (save_article_body w now ttl lnk pub cnt src True st)))"
    and "link a = lnk"
  shows "content a = cnt \<and> source_id a = src"
proof (cases "find (\<lambda>a. link a = lnk) (articles st)")
  case None
  then have no: "\<forall>b \<in> set (articles st). link b \<noteq> lnk"
    by (simp add: find_None_iff)
  from assms(1) None have "a = \<lparr>aid = Suc (seq_articles st), title = ttl, link = lnk,
            published = Some pub, content = cnt, scraped_at = Some (isoformat w now),
            source_id = src\<rparr> \<or> a \<in> set (articles st)"
    by (simp add: articles_save_article_new)
  then show ?thesis
  proof
    assume "a \<in> set (articles st)"
    with no have "link a \<noteq> lnk" by (rule bspec)
    with assms(2) show ?thesis by simp
  next
    assume "a = \<lparr>aid = Suc (seq_articles st), title = ttl, link = lnk, published = Some pub,
            content = cnt, scraped_at = Some (isoformat w now), source_id = src\<rparr>"
    then show ?thesis by simp
  qed
next
  case (Some row)
  with assms(1) have "a \<in> (\<lambda>a. if link a = lnk
               then a\<lparr>content := cnt, scraped_at := Some (isoformat w now), source_id := src\<rparr>
               else a) ` set (articles st)"
    by (simp add: articles_save_article_scraped)
  then obtain b where a: "a = (if link b = lnk
               then b\<lparr>content := cnt, scraped_at := Some (isoformat w now), source_id := src\<rparr>
               else b)"
    by (rule imageE)
  show ?thesis
  proof (cases "link b = lnk")
    case True
    with a show ?thesis by simp
  next
    case False
    with a assms(2) show ?thesis by simp
  qed
qed

lemma resave_scraped:
  assumes "find (\<lambda>a. link a = lnk) (articles s) = Some r"
    and "\<forall>a \<in> set (articles s). link a = lnk \<longrightarrow> content a = cnt \<and> source_id a = src"
  shows "map forget_scraped_at
           (articles (snd (save_article_body w now ttl lnk pub cnt src True s))) =
         map forget_scraped_at (articles s)"
proof -
  have "forget_scraped_at (a\<lparr>content := cnt, scraped_at := t, source_id := src\<rparr>) =
        forget_scraped_at a" if "content a = cnt" "source_id a = src" for a t
    using that by (cases a) (simp add: forget_scraped_at_def)
  with assms(2) have "map forget_scraped_at
      (map (\<lambda>a. if link a = lnk
                then a\<lparr>content := cnt, scraped_at := Some (isoformat w now), source_id := src\<rparr>
                else a) (articles s)) = map forget_scraped_at (articles s)"
    by (simp cong: map_cong)
  with assms(1) show ?thesis
    by (simp add: articles_save_article_scraped)
qed

lemma save_article_twice:
  "map forget_scraped_at
     (articles (snd (save_article_body w now' ttl lnk pub cnt src sn
        (snd (save_article_body w now ttl lnk pub cnt src sn st))))) =
   map forget_scraped_at (articles (snd (save_article_body w now ttl lnk pub cnt src sn st)))"
proof -
  let ?s = "snd (save_article_body w now ttl lnk pub cnt src sn st)"
  obtain r where r: "find (\<lambda>a. link a = lnk) (articles ?s) = Some r"
    using find_link_after_save [of lnk w now ttl pub cnt src sn st] by auto
  show ?thesis
  proof (cases sn)
    case True
    then have sn: "sn = True" by simp
    have "\<forall>a \<in> set (articles ?s). link a = lnk \<longrightarrow> content a = cnt \<and> source_id a = src"
      unfolding sn using rows_after_scraped_save [of _ w now ttl lnk pub cnt src st] by blast
    with r True show ?thesis
      using resave_scraped [of lnk ?s r cnt src w now' ttl pub] by simp
  next
    case False
    with r show ?thesis
      by (simp add: articles_save_article_unscraped)
  qed
qed

subsection \<open>Saving an article whose link is already stored\<close>

text \<open>
  Claim C2, as the specification states it, says that a call for a stored link updates
  title, published, content and source\_id and stamps the time under both values of
  \<open>scraped_now\<close>. On the store that holds one article, a call with a new title, a new
  publication date and a new body leaves title and publication date as they were when
  \<open>scraped_now\<close> is set, and leaves the whole row as it was when it is not.
\<close>

theorem save_article_update_counterexample:
  "map title (articles (snd (save_article example_world 1719792000000000 ''Corrected news''
       ''http://a/1'' ''2020-01-16 09:00:00'' ''better body'' (Some 2) True one_old_article)))
     = [''Old news''] \<and>
   map published (articles (snd (save_article example_world 1719792000000000 ''Corrected news''
       ''http://a/1'' ''2020-01-16 09:00:00'' ''better body'' (Some 2) True one_old_article)))
     = [Some ''2020-01-15 10:00:00''] \<and>
   articles (snd (save_article example_world 1719792000000000 ''Corrected news''
       ''http://a/1'' ''2020-01-16 09:00:00'' ''better body'' (Some 2) False one_old_article))
     = articles one_old_article \<and>
   map content (articles one_old_article) = [''body'']"
  by (simp add: one_old_article_def example_world_def save_article_def save_article_body_def
      fresh_db_def append_log_def)

text \<open>
  Claim C2, amended. When a row with the link is stored: with \<open>scraped_now\<close> set, the
  row keeps its id, title, link and publication date and gets the arriving content and
  source id and the current time as \<open>scraped_at\<close>; with \<open>scraped_now\<close> unset, the
  table is unchanged. In every case the rows of other links are unchanged, and a second
  call with the same arguments changes no column except \<open>scraped_at\<close>.
\<close>

theorem save_article_existing_link:
  "(find (\<lambda>a. link a = lnk) (articles st) = Some row \<longrightarrow>
      find (\<lambda>a. link a = lnk)
        (articles (snd (save_article w now ttl lnk pub cnt src True st))) =
        Some (row\<lparr>content := cnt, scraped_at := Some (isoformat w now), source_id := src\<rparr>) \<and>
      articles (snd (save_article w now ttl lnk pub cnt src False st)) = articles st) \<and>
   filter (\<lambda>a. link a \<noteq> lnk)
     (articles (snd (save_article w now ttl lnk pub cnt src scraped_now st))) =
     filter (\<lambda>a. link a \<noteq> lnk) (articles st) \<and>
   map forget_scraped_at
     (articles (snd (save_article w now' ttl lnk pub cnt src scraped_now
        (snd (save_article w now ttl lnk pub cnt src scraped_now st))))) =
     map forget_scraped_at
       (articles (snd (save_article w now ttl lnk pub cnt src scraped_now st)))"
  by (simp add: save_article_def find_link_after_update articles_save_article_unscraped
      other_rows_kept save_article_twice)

theorem save_article_existing_link_witness:
  "find (\<lambda>a. link a = ''http://a/1'') (articles one_old_article) =
     Some \<lparr>aid = 1, title = ''Old news'', link = ''http://a/1'',
        published = Some ''2020-01-15 10:00:00'', content = ''body'',
        scraped_at = Some ''2020-01-15T10:00:00'', source_id = Some 1\<rparr> \<and>
   find (\<lambda>a. link a = ''http://a/1'')
     (articles (snd (save_article example_world 1719792000000000 ''Corrected news''
        ''http://a/1'' ''2020-01-16 09:00:00'' ''better body'' (Some 2) True one_old_article))) =
     Some \<lparr>aid = 1, title = ''Old news'', link = ''http://a/1'',
        published = Some ''2020-01-15 10:00:00'', content = ''better body'',
        scraped_at = Some ''2024-07-01T00:00:00'', source_id = Some 2\<rparr>"
proof -
  let ?row = "\<lparr>aid = 1, title = ''Old news'', link = ''http://a/1'',
        published = Some ''2020-01-15 10:00:00'', content = ''body'',
        scraped_at = Some ''2020-01-15T10:00:00'', source_id = Some 1\<rparr>"
  have h: "find (\<lambda>a. link a = ''http://a/1'') (articles one_old_article) = Some ?row"
    by (simp add: one_old_article_def example_world_def save_article_def save_article_body_def
        fresh_db_def append_log_def)
  have i: "isoformat example_world 1719792000000000 = ''2024-07-01T00:00:00''"
    by (simp add: example_world_def)
  have "find (\<lambda>a. link a = ''http://a/1'')
     (articles (snd (save_article example_world 1719792000000000 ''Corrected news''
        ''http://a/1'' ''2020-01-16 09:00:00'' ''better body'' (Some 2) True one_old_article))) =
     Some (?row\<lparr>content := ''better body'',
        scraped_at := Some (isoformat example_world 1719792000000000), source_id := Some 2\<rparr>)"
    using h save_article_existing_link [of "''http://a/1''" one_old_article ?row example_world
        1719792000000000 "''Corrected news''" "''2020-01-16 09:00:00''" "''better body''"
        "Some 2" True 1719792000000000]
    by blast
  with h i show ?thesis
    by simp
qed

subsection \<open>The value returned by \<open>save_article\<close>\<close>

text \<open>
  Claim C3 says that \<open>save_article\<close> returns the id of the row that holds the link,
  on the insert path and on the update path alike. The body computes that id in
  \<open>article_id\<close> on both paths (here 1), but has no \<open>return\<close> statement: the caller
  receives \<open>None\<close> on both paths.
\<close>

theorem save_article_returns_none:
  "fst (save_article_body example_world 1579082400000000 ''Old news'' ''http://a/1''
          ''2020-01-15 10:00:00'' ''body'' (Some 1) True fresh_db) = Some 1 \<and>
   fst (save_article example_world 1579082400000000 ''Old news'' ''http://a/1''
          ''2020-01-15 10:00:00'' ''body'' (Some 1) True fresh_db) = None \<and>
   fst (save_article_body example_world 1719792000000000 ''Old news'' ''http://a/1''
          ''2020-01-15 10:00:00'' ''body'' (Some 1) False one_old_article) = Some 1 \<and>
   fst (save_article example_world 1719792000000000 ''Old news'' ''http://a/1''
          ''2020-01-15 10:00:00'' ''body'' (Some 1) False one_old_article) = None"
  by (simp add: one_old_article_def example_world_def save_article_def save_article_body_def
      fresh_db_def append_log_def)

subsection \<open>Archival without candidates\<close>

text \<open>
  Claim C10. When the candidate query selects no article, \<open>archive_old_articles\<close>
  returns normally and changes nothing but the log, to which it adds one line: no
  directory and no file is created, and no row of any table is inserted, updated or
  deleted.
\<close>

theorem archive_without_candidates:
  assumes "old_articles w now threshold_days st = []"
  shows "archive_old_articles w now threshold_days st =
           (Inr (), st\<lparr>log := log st @ [NothingToArchive]\<rparr>)"
  using assms by (simp add: archive_old_articles_def append_log_def)

theorem archive_without_candidates_witness:
  "old_articles example_world 1719792000000000 30 one_undated_article = [] \<and>
   archive_old_articles example_world 1719792000000000 30 one_undated_article =
     (Inr (), one_undated_article\<lparr>log := log one_undated_article @ [NothingToArchive]\<rparr>)"
proof -
  have h: "old_articles example_world 1719792000000000 30 one_undated_article = []"
    by (simp add: old_articles_def is_old_def one_undated_article_def example_world_def
        save_article_def save_article_body_def fresh_db_def append_log_def)
  show ?thesis
    using h archive_without_candidates [OF h] by simp
qed

subsection \<open>Archival when the write of a file fails\<close>

text \<open>
  Claim C1 says that a row is deleted only if the file of its month was written. In a
  world where the write of the compressed file fails, the run on the store with one old
  article logs the failure, writes no file and then deletes the article all the same:
  the list of ids to delete is taken from all selected rows.
\<close>

theorem archive_deletes_rows_of_failed_write:
  "map aid (articles one_old_article) = [1] \<and>
   map aid (old_articles full_disk_world
              1719792000000000 30 one_old_article) = [1] \<and>
   fst (archive_old_articles full_disk_world
          1719792000000000 30 one_old_article) = Inr () \<and>
   articles (snd (archive_old_articles full_disk_world
          1719792000000000 30 one_old_article)) = [] \<and>
   archive_files (snd (archive_old_articles full_disk_world
          1719792000000000 30 one_old_article)) = [] \<and>
   log (snd (archive_old_articles full_disk_world
          1719792000000000 30 one_old_article)) =
     [ArticleSavedAndScraped ''Old news'',
      ErrorArchiving (2020, 1) ''articles_2024_07_01_000000.json.gz'',
      RemovedArticles 1]"
  by (simp add: one_old_article_def full_disk_world_def example_world_def save_article_def
      save_article_body_def fresh_db_def append_log_def archive_old_articles_def
      old_articles_def is_old_def cutoff_iso_def microseconds_per_day_def delete_articles_def
      to_record_def)

subsection \<open>Fetching a list of feeds\<close>





subsection \<open>Falling back on the text of the feed\<close>

text \<open>
  Claim C6. When a full-page extraction is attempted for an entry and yields the empty
  string, the resolved content is \<open>h.handle\<close> of the first item of the entry's
  \<open>content\<close> field when that field is present and non-empty, and otherwise
  \<open>h.handle\<close> of the summary, taken as the empty string when the entry has none; and
  \<open>scraped_now\<close> is false.
\<close>

theorem fallback_to_feed_content:
  assumes "needs_scraping w now (e_link e) st = Inr True"
    and "fst (fetch_full_article w (e_link e) st) = []"
  shows "(\<forall>c cs. e_content e = Some (c # cs) \<longrightarrow>
            fst (resolve_content w now e st) = Inr (html2text_handle w c, False)) \<and>
         (e_content e = None \<or> e_content e = Some [] \<longrightarrow>
            (\<forall>s. e_summary e = Some s \<longrightarrow>
               fst (resolve_content w now e st) = Inr (html2text_handle w s, False)) \<and>
            (e_summary e = None \<longrightarrow>
               fst (resolve_content w now e st) = Inr (html2text_handle w [], False)))"
  using assms
  by (auto simp: resolve_content_def raw_content_def split: prod.splits)

theorem fallback_to_feed_content_witness:
  "needs_scraping example_world 1719792000000000 (e_link example_entry) one_old_article = Inr True \<and>
   fst (fetch_full_article example_world (e_link example_entry) one_old_article) = [] \<and>
   fst (resolve_content example_world 1719792000000000 example_entry one_old_article) =
     Inr (''full text of the feed'', False)"
proof -
  have n: "needs_scraping example_world 1719792000000000 (e_link example_entry) one_old_article
      = Inr True"
    by (simp add: needs_scraping_def example_entry_def one_old_article_def save_article_def
        save_article_body_def fresh_db_def append_log_def)
  have f: "fst (fetch_full_article example_world (e_link example_entry) one_old_article) = []"
    by (simp add: fetch_full_article_def example_world_def)
  have c: "e_content example_entry = Some [''full text of the feed'']"
    by (simp add: example_entry_def)
  have h: "html2text_handle example_world ''full text of the feed'' = ''full text of the feed''"
    by (simp add: example_world_def)
  show ?thesis
    using n f c h fallback_to_feed_content [OF n f] by simp
qed

subsection \<open>Reusing cached content\<close>

lemma needs_scraping_readable:
  assumes "stamps_readable w st"
  shows "needs_scraping w now lnk st = Inr (\<not> cache_fresh w now lnk st)"
proof (cases "find (\<lambda>a. link a = lnk) (articles st)")
  case None
  then show ?thesis by (simp add: needs_scraping_def cache_fresh_def)
next
  case (Some row)
  then have "row \<in> set (articles st)"
    by (auto simp: find_Some_iff)
  with assms have "case scraped_at row of None \<Rightarrow> True
      | Some s \<Rightarrow> s \<noteq> [] \<and> dateutil_parse w s \<noteq> None"
    unfolding stamps_readable_def by (rule bspec)
  with Some show ?thesis
    by (auto simp: needs_scraping_def cache_fresh_def CACHE_DURATION_HOURS_def
        split: option.splits)
qed

text \<open>
  Claim C5. On a store whose time stamps are readable, the content of an entry is taken
  from the store, with no request for the page, exactly when the freshness test of the
  specification holds; in every other case the page of the entry is requested.
\<close>

theorem cache_reuse_iff_fresh:
  assumes "stamps_readable w st"
  shows "(cache_fresh w now (e_link e) st \<longrightarrow>
            resolve_content w now e st = (Inr (stored_content (e_link e) st, False), st)) \<and>
         (\<not> cache_fresh w now (e_link e) st \<longrightarrow>
            page_requests (snd (resolve_content w now e st)) = page_requests st @ [e_link e]) \<and>
         (page_requests (snd (resolve_content w now e st)) = page_requests st
            \<longleftrightarrow> cache_fresh w now (e_link e) st)"
proof -
  have p: "page_requests (snd (fetch_full_article w l st)) = page_requests st @ [l]" for l
    by (simp add: fetch_full_article_def Let_def split: http_outcome.splits)
  have q: "page_requests st1 = page_requests st @ [l]"
    if "fetch_full_article w l st = (c, st1)" for l c st1
    using p [of l] that by simp
  show ?thesis
  proof (cases "cache_fresh w now (e_link e) st")
    case True
    then have "resolve_content w now e st = (Inr (stored_content (e_link e) st, False), st)"
      by (simp add: resolve_content_def needs_scraping_readable [OF assms] stored_content_def
          split: option.splits)
    with True show ?thesis by simp
  next
    case False
    then have "page_requests (snd (resolve_content w now e st)) = page_requests st @ [e_link e]"
      using q by (auto simp: resolve_content_def needs_scraping_readable [OF assms]
          split: prod.splits)
    with False show ?thesis by simp
  qed
qed

theorem cache_reuse_iff_fresh_witness:
  "stamps_readable example_world one_long_article \<and>
   cache_fresh example_world 1719795600000000 (e_link example_entry) one_long_article \<and>
   resolve_content example_world 1719795600000000 example_entry one_long_article =
     (Inr (replicate 200 (CHR ''x''), False), one_long_article) \<and>
   \<not> cache_fresh example_world 1719882000000000 (e_link example_entry) one_long_article \<and>
   page_requests (snd (resolve_content example_world 1719882000000000 example_entry
      one_long_article)) = [''http://a/1'']"
proof -
  have a: "articles one_long_article =
      [\<lparr>aid = 1, title = ''Old news'', link = ''http://a/1'',
        published = Some ''2020-01-15 10:00:00'', content = replicate 200 (CHR ''x''),
        scraped_at = Some ''2024-07-01T00:00:00'', source_id = Some 1\<rparr>]"
    "page_requests one_long_article = []"
    by (simp_all add: one_long_article_def save_article_def save_article_body_def fresh_db_def
        append_log_def example_world_def)
  have d: "dateutil_parse example_world ''2024-07-01T00:00:00'' =
      Some \<lparr>year = 2024, month = 7, instant = 1719792000000000\<rparr>"
    by (simp add: example_world_def)
  have h: "stamps_readable example_world one_long_article"
    by (simp add: stamps_readable_def a d)
  have l: "e_link example_entry = ''http://a/1''"
    by (simp add: example_entry_def)
  have f: "cache_fresh example_world 1719795600000000 (e_link example_entry) one_long_article"
    by (simp add: cache_fresh_def a d l microseconds_per_hour_def)
  have g: "\<not> cache_fresh example_world 1719882000000000 (e_link example_entry) one_long_article"
    by (simp add: cache_fresh_def a d l microseconds_per_hour_def)
  have s: "stored_content (e_link example_entry) one_long_article = replicate 200 (CHR ''x'')"
    by (simp add: stored_content_def a l)
  show ?thesis
    using h f g s a l
      cache_reuse_iff_fresh [OF h, of 1719795600000000 example_entry]
      cache_reuse_iff_fresh [OF h, of 1719882000000000 example_entry]
    by simp
qed

subsection \<open>What a run of the archival writes and deletes\<close>

lemma group_records_simps [simp]:
  "group_records [] = {}"
  "group_records ((k, rs) # d) = set rs \<union> group_records d"
  by (simp_all add: group_records_def)






lemma archive_run_articles:
  "articles (snd (archive_old_articles w now days st)) = articles st \<or>
   articles (snd (archive_old_articles w now days st)) =
     filter (\<lambda>a. aid a \<notin> aid ` set (old_articles w now days st)) (articles st)"
proof (cases "old_articles w now days st = []")
  case True
  then show ?thesis
    by (simp add: archive_old_articles_def)
next
  case False
  let ?olds = "old_articles w now days st"
  obtain d st1 where g: "group_by_month w ?olds [] st = (d, st1)"
    by (cases "group_by_month w ?olds [] st")
  obtain r st2 where wr: "write_archives w d st1 = (r, st2)"
    by (cases "write_archives w d st1")
  have a2: "articles st2 = articles st"
    using articles_group_by_month [of w ?olds "[]" st] articles_write_archives [of w d st1] g wr
    by simp
  show ?thesis
  proof (cases r)
    case (Inl x)
    with False g wr have "snd (archive_old_articles w now days st) = st2"
      by (simp add: archive_old_articles_def)
    with a2 show ?thesis by simp
  next
    case (Inr u)
    with False g wr have "articles (snd (archive_old_articles w now days st)) =
        filter (\<lambda>a. aid a \<notin> aid ` set ?olds) (articles st2)"
      by (simp add: archive_old_articles_def delete_articles_def Let_def)
    with a2 show ?thesis by simp
  qed
qed

subsection \<open>Rows whose date SQLite cannot read\<close>



subsection \<open>Searching by tags\<close>

lemma set_matched_tag_ids:
  "set (matched_tag_ids tag_ids a st) =
     {tid \<in> set tag_ids. (aid a, tid) \<in> set (article_tags st)}"
  by (force simp: matched_tag_ids_def)

lemma all_matched_iff:
  assumes "distinct tag_ids"
  shows "length (remdups (matched_tag_ids tag_ids a st)) = length tag_ids \<longleftrightarrow>
         (\<forall>tid \<in> set tag_ids. (aid a, tid) \<in> set (article_tags st))"
proof -
  let ?M = "set (matched_tag_ids tag_ids a st)"
  have sub: "?M \<subseteq> set tag_ids"
    by (auto simp: set_matched_tag_ids)
  have "length (remdups (matched_tag_ids tag_ids a st)) = card ?M"
    by (simp add: length_remdups_card_conv)
  moreover have "length tag_ids = card (set tag_ids)"
    using assms by (simp add: distinct_card)
  moreover have "card ?M = card (set tag_ids) \<longleftrightarrow> ?M = set tag_ids"
    using sub card_subset_eq [of "set tag_ids" ?M] by auto
  moreover have "?M = set tag_ids \<longleftrightarrow>
      (\<forall>tid \<in> set tag_ids. (aid a, tid) \<in> set (article_tags st))"
    by (auto simp: set_matched_tag_ids)
  ultimately show ?thesis by simp
qed

lemma carries_all_tags_iff:
  assumes "distinct (map snd (tags st))"
    and "set search_tags \<subseteq> snd ` set (tags st)"
  shows "carries_all_tags search_tags a st \<longleftrightarrow>
         (\<forall>tid \<in> set (map fst (filter (\<lambda>p. snd p \<in> set search_tags) (tags st))).
            (aid a, tid) \<in> set (article_tags st))"
proof
  assume c: "carries_all_tags search_tags a st"
  show "\<forall>tid \<in> set (map fst (filter (\<lambda>p. snd p \<in> set search_tags) (tags st))).
            (aid a, tid) \<in> set (article_tags st)"
  proof
    fix tid
    assume "tid \<in> set (map fst (filter (\<lambda>p. snd p \<in> set search_tags) (tags st)))"
    then obtain p where p: "p \<in> set (tags st)" "snd p \<in> set search_tags" "fst p = tid"
      by auto
    with c obtain q where q: "q \<in> set (tags st)" "snd q = snd p"
      "(aid a, fst q) \<in> set (article_tags st)"
      unfolding carries_all_tags_def by blast
    from assms(1) have "inj_on snd (set (tags st))"
      by (simp add: distinct_map)
    with p(1) q(1,2) have "q = p"
      by (auto dest: inj_onD)
    with q(3) p(3) show "(aid a, tid) \<in> set (article_tags st)" by simp
  qed
next
  assume r: "\<forall>tid \<in> set (map fst (filter (\<lambda>p. snd p \<in> set search_tags) (tags st))).
            (aid a, tid) \<in> set (article_tags st)"
  show "carries_all_tags search_tags a st"
    unfolding carries_all_tags_def
  proof
    fix t
    assume t: "t \<in> set search_tags"
    with assms(2) obtain p where p: "p \<in> set (tags st)" "snd p = t"
      by auto
    with t have "fst p \<in> set (map fst (filter (\<lambda>p. snd p \<in> set search_tags) (tags st)))"
      by auto
    with r have "(aid a, fst p) \<in> set (article_tags st)" by blast
    with p show "\<exists>p \<in> set (tags st). snd p = t \<and> (aid a, fst p) \<in> set (article_tags st)"
      by blast
  qed
qed

text \<open>
  Claim C8, as the specification states it, says that an article is in the result
  exactly when it is associated with every tag of the list, so that the result is empty
  as soon as one given tag is attached to no article. In the store whose only article
  is tagged \<open>python\<close> and which knows no tag \<open>rust\<close>, the search for both tags
  returns the article; and the search for the empty list returns nothing, although the
  article carries every tag of that list.
\<close>

theorem search_all_tags_counterexample:
  "map snd (tags tagged_store) = [''python''] \<and>
   article_tags tagged_store = [(1, 1)] \<and>
   search_articles [''python'', ''rust''] tagged_store =
     [(1, ''Old news'', ''http://a/1'', Some ''2020-01-15 10:00:00'')] \<and>
   map aid (articles tagged_store) = [1] \<and>
   search_articles [] tagged_store = []"
  by (simp add: tagged_store_def add_tags_def add_tag_def one_old_article_def save_article_def
      save_article_body_def fresh_db_def append_log_def example_world_def search_articles_def
      matched_tag_ids_def search_row_def)

text \<open>
  Claim C8, amended. For the empty list \<open>search_articles\<close> returns nothing. For a
  non-empty list of tags that all exist in the \<open>tags\<close> table, it returns exactly the
  articles that are associated with every tag of the list, in the order of the table.
\<close>

theorem search_articles_all_tags:
  "search_articles [] st = [] \<and>
   (tags_unique st \<and> search_tags \<noteq> [] \<and> set search_tags \<subseteq> snd ` set (tags st) \<longrightarrow>
      search_articles search_tags st =
        map search_row (filter (\<lambda>a. carries_all_tags search_tags a st) (articles st)))"
proof
  show "search_articles [] st = []"
    by (simp add: search_articles_def)
  show "tags_unique st \<and> search_tags \<noteq> [] \<and> set search_tags \<subseteq> snd ` set (tags st) \<longrightarrow>
      search_articles search_tags st =
        map search_row (filter (\<lambda>a. carries_all_tags search_tags a st) (articles st))"
  proof
    assume h: "tags_unique st \<and> search_tags \<noteq> [] \<and> set search_tags \<subseteq> snd ` set (tags st)"
    let ?ids = "map fst (filter (\<lambda>p. snd p \<in> set search_tags) (tags st))"
    from h have d: "distinct ?ids"
      by (simp add: tags_unique_def distinct_map_filter)
    from h obtain t where "t \<in> set search_tags"
      by (cases search_tags) auto
    with h obtain p where "p \<in> set (tags st)" "snd p \<in> set search_tags"
      by auto
    then have ne: "?ids \<noteq> []"
      by (auto simp: filter_empty_conv)
    have m: "matched_tag_ids ?ids a st \<noteq> [] \<and>
          length (remdups (matched_tag_ids ?ids a st)) = length ?ids \<longleftrightarrow>
        carries_all_tags search_tags a st" for a
    proof -
      have "length (remdups (matched_tag_ids ?ids a st)) = length ?ids \<Longrightarrow>
          matched_tag_ids ?ids a st \<noteq> []"
        using ne by auto
      moreover have "length (remdups (matched_tag_ids ?ids a st)) = length ?ids \<longleftrightarrow>
          carries_all_tags search_tags a st"
        using all_matched_iff [OF d, of a st] carries_all_tags_iff [of st search_tags a] h
        by (simp add: tags_unique_def)
      ultimately show ?thesis by blast
    qed
    have m': "matched_tag_ids ?ids a st \<noteq> [] \<and>
          length (remdups (matched_tag_ids ?ids a st)) =
            length (filter (\<lambda>p. snd p \<in> set search_tags) (tags st)) \<longleftrightarrow>
        carries_all_tags search_tags a st" for a
      using m [of a] by simp
    show "search_articles search_tags st =
        map search_row (filter (\<lambda>a. carries_all_tags search_tags a st) (articles st))"
      using h ne by (simp add: search_articles_def Let_def m')
  qed
qed

theorem search_articles_all_tags_witness:
  "tags_unique tagged_store \<and> set [''python''] \<subseteq> snd ` set (tags tagged_store) \<and>
   search_articles [''python''] tagged_store =
     [(1, ''Old news'', ''http://a/1'', Some ''2020-01-15 10:00:00'')]"
proof -
  have t: "tags tagged_store = [(1, ''python'')]" "article_tags tagged_store = [(1, 1)]"
    "articles tagged_store = articles one_old_article"
    by (simp_all add: tagged_store_def add_tags_def add_tag_def one_old_article_def
        save_article_def save_article_body_def fresh_db_def append_log_def)
  have a: "articles one_old_article =
      [\<lparr>aid = 1, title = ''Old news'', link = ''http://a/1'',
         published = Some ''2020-01-15 10:00:00'', content = ''body'',
         scraped_at = Some ''2020-01-15T10:00:00'', source_id = Some 1\<rparr>]"
    by (simp add: one_old_article_def save_article_def save_article_body_def fresh_db_def
        append_log_def example_world_def)
  have u: "tags_unique tagged_store"
    by (simp add: tags_unique_def t)
  have s: "set [''python''] \<subseteq> snd ` set (tags tagged_store)"
    by (simp add: t)
  show ?thesis
    using u s search_articles_all_tags [of tagged_store "[''python'']"]
    by (simp add: carries_all_tags_def t a search_row_def)
qed

subsection \<open>The store keeps the constraints of its schema\<close>

text \<open>
  The hypotheses on the store made above (distinct ids, unique tags, readable time
  stamps) hold in the fresh store and are kept by every operation.
\<close>

lemma fresh_db_constraints:
  "article_ids_ok fresh_db" "tags_ok fresh_db" "stamps_readable w fresh_db"
  by (simp_all add: article_ids_ok_def tags_ok_def tags_unique_def stamps_readable_def
      fresh_db_def)

lemma append_log_counters [simp]:
  "seq_articles (append_log e st) = seq_articles st"
  "seq_tags (append_log e st) = seq_tags st"
  by (simp_all add: append_log_def)

lemma article_ids_ok_cong:
  "map aid (articles st') = map aid (articles st) \<Longrightarrow> seq_articles st' = seq_articles st \<Longrightarrow>
   article_ids_ok st' = article_ids_ok st"
  unfolding article_ids_ok_def by (simp only:)

lemma seq_articles_save_source [simp]:
  "seq_articles (snd (save_source name url st)) = seq_articles st"
  by (simp add: save_source_def Let_def split: option.splits)

lemma seq_articles_add_tag [simp]: "seq_articles (add_tag i t st) = seq_articles st"
  by (simp add: add_tag_def Let_def split: option.splits)

lemma seq_articles_add_tags [simp]: "seq_articles (add_tags i ts st) = seq_articles st"
  unfolding add_tags_def by (induction ts arbitrary: st) simp_all

lemma seq_articles_remove_tag [simp]: "seq_articles (remove_tag i t st) = seq_articles st"
  by (simp add: remove_tag_def split: option.splits)

lemma seq_articles_remove_tags [simp]: "seq_articles (remove_tags i ts st) = seq_articles st"
  unfolding remove_tags_def by (induction ts arbitrary: st) simp_all

lemma seq_articles_fetch_full_article [simp]:
  "seq_articles (snd (fetch_full_article w l st)) = seq_articles st"
  by (simp add: fetch_full_article_def Let_def split: http_outcome.splits)

lemma seq_articles_resolve_content [simp]:
  "seq_articles (snd (resolve_content w now e st)) = seq_articles st"
proof -
  have "seq_articles st1 = seq_articles st" if "fetch_full_article w l st = (c, st1)" for l c st1
    using seq_articles_fetch_full_article [of w l st] that by simp
  then show ?thesis
    by (auto simp: resolve_content_def split: sum.splits bool.splits option.splits prod.splits)
qed

lemma seq_articles_group_by_month [simp]:
  "seq_articles (snd (group_by_month w as d st)) = seq_articles st"
  by (induction as arbitrary: d st) (simp_all split: option.splits)

lemma seq_articles_write_archives [simp]:
  "seq_articles (snd (write_archives w d st)) = seq_articles st"
  by (induction w d st rule: write_archives.induct) (simp add: Let_def)+

lemma seq_articles_archive [simp]:
  "seq_articles (snd (archive_old_articles w now days st)) = seq_articles st"
proof (cases "old_articles w now days st = []")
  case True
  then show ?thesis by (simp add: archive_old_articles_def)
next
  case False
  let ?olds = "old_articles w now days st"
  obtain d st1 where g: "group_by_month w ?olds [] st = (d, st1)"
    by (cases "group_by_month w ?olds [] st")
  obtain r st2 where wr: "write_archives w d st1 = (r, st2)"
    by (cases "write_archives w d st1")
  have "seq_articles st2 = seq_articles st"
    using seq_articles_group_by_month [of w ?olds "[]" st] seq_articles_write_archives [of w d st1]
      g wr by simp
  with False g wr show ?thesis
    by (cases r) (simp_all add: archive_old_articles_def delete_articles_def Let_def)
qed

lemma article_ids_ok_save_article_body:
  assumes "article_ids_ok st"
  shows "article_ids_ok (snd (save_article_body w now ttl lnk pub cnt src sn st))"
proof (cases "find (\<lambda>a. link a = lnk) (articles st)")
  case None
  have "seq_articles (snd (save_article_body w now ttl lnk pub cnt src sn st)) =
      Suc (seq_articles st)"
    using None by (simp add: save_article_body_def Let_def)
  moreover have "map aid (articles (snd (save_article_body w now ttl lnk pub cnt src sn st))) =
      map aid (articles st) @ [Suc (seq_articles st)]"
    using None by (simp add: articles_save_article_new)
  moreover have "Suc (seq_articles st) \<notin> set (map aid (articles st))"
    using assms unfolding article_ids_ok_def by force
  moreover have "\<forall>i \<in> set (map aid (articles st)). i \<le> Suc (seq_articles st)"
    using assms unfolding article_ids_ok_def by force
  ultimately show ?thesis
    using assms unfolding article_ids_ok_def by simp
next
  case (Some row)
  have s: "seq_articles (snd (save_article_body w now ttl lnk pub cnt src sn st)) =
      seq_articles st"
    using Some by (simp add: save_article_body_def)
  show ?thesis
  proof (cases sn)
    case True
    have f: "map aid (map (\<lambda>a. if link a = lnk
               then a\<lparr>content := cnt, scraped_at := Some (isoformat w now), source_id := src\<rparr>
               else a) xs) = map aid xs" for xs
      by (induction xs) simp_all
    have "articles (snd (save_article_body w now ttl lnk pub cnt src sn st)) =
        map (\<lambda>a. if link a = lnk
               then a\<lparr>content := cnt, scraped_at := Some (isoformat w now), source_id := src\<rparr>
               else a) (articles st)"
      using Some True by (simp add: articles_save_article_scraped)
    then have m: "map aid (articles (snd (save_article_body w now ttl lnk pub cnt src sn st))) =
        map aid (articles st)"
      by (simp only: f)
    from article_ids_ok_cong [OF m s] assms show ?thesis
      by simp
  next
    case False
    with Some have "articles (snd (save_article_body w now ttl lnk pub cnt src sn st)) =
        articles st"
      by (simp add: articles_save_article_unscraped)
    with s assms show ?thesis
      by (simp add: article_ids_ok_def)
  qed
qed

lemma article_ids_ok_filter:
  "article_ids_ok st \<Longrightarrow> articles st' = filter P (articles st) \<Longrightarrow>
   seq_articles st' = seq_articles st \<Longrightarrow> article_ids_ok st'"
  by (simp add: article_ids_ok_def distinct_map_filter)

lemma article_ids_ok_run_op:
  assumes "article_ids_ok st"
  shows "article_ids_ok (run_op w op st)"
proof (cases op)
  case (SaveArticle now ttl lnk pub cnt src sn)
  with assms show ?thesis
    by (simp add: save_article_def article_ids_ok_save_article_body)
next
  case (ProcessEntry now save_now src e)
  have "article_ids_ok (snd (resolve_content w now e st))"
    using assms by (simp add: article_ids_ok_def)
  then show ?thesis
    unfolding ProcessEntry
    by (auto simp: process_entry_def Let_def save_article_def
        split: prod.splits sum.splits intro: article_ids_ok_save_article_body)
next
  case (ArchiveOldArticles now days)
  from archive_run_articles [of w now days st] show ?thesis
  proof
    assume "articles (snd (archive_old_articles w now days st)) = articles st"
    with assms show ?thesis
      unfolding ArchiveOldArticles by (simp add: article_ids_ok_def)
  next
    assume "articles (snd (archive_old_articles w now days st)) =
      filter (\<lambda>a. aid a \<notin> aid ` set (old_articles w now days st)) (articles st)"
    with assms show ?thesis
      unfolding ArchiveOldArticles by (simp add: article_ids_ok_filter)
  qed
qed (use assms in \<open>simp_all add: article_ids_ok_def initialize_db_def update_source_name_def
      delete_source_def\<close>)

lemma stamps_readable_save_article_body:
  assumes "iso_readable w" and "stamps_readable w st"
  shows "stamps_readable w (snd (save_article_body w now ttl lnk pub cnt src sn st))"
proof -
  from assms(1) have r: "isoformat w now \<noteq> []" "dateutil_parse w (isoformat w now) \<noteq> None"
    by (simp_all add: iso_readable_def)
  show ?thesis
    using assms(2) r
    by (cases "find (\<lambda>a. link a = lnk) (articles st)"; cases sn)
       (auto simp: stamps_readable_def articles_save_article_new articles_save_article_scraped
          articles_save_article_unscraped)
qed

lemma stamps_readable_subset:
  "stamps_readable w st \<Longrightarrow> set (articles st') \<subseteq> set (articles st) \<Longrightarrow> stamps_readable w st'"
  by (auto simp: stamps_readable_def)

lemma stamps_readable_run_op:
  assumes "iso_readable w" and "stamps_readable w st"
  shows "stamps_readable w (run_op w op st)"
proof (cases op)
  case (SaveArticle now ttl lnk pub cnt src sn)
  with assms show ?thesis
    by (simp add: save_article_def stamps_readable_save_article_body)
next
  case (ProcessEntry now save_now src e)
  have "stamps_readable w (snd (resolve_content w now e st))"
    using assms(2) by (simp add: stamps_readable_def)
  then show ?thesis
    unfolding ProcessEntry
    by (auto simp: process_entry_def Let_def save_article_def
        split: prod.splits sum.splits intro: stamps_readable_save_article_body [OF assms(1)])
next
  case (ArchiveOldArticles now days)
  then show ?thesis
    using assms(2) stamps_readable_subset [OF _ set_articles_archive] by simp
qed (use assms(2) in \<open>simp_all add: stamps_readable_def initialize_db_def update_source_name_def
      delete_source_def\<close>)


lemma tags_ok_cong:
  "tag_tables st' = tag_tables st \<Longrightarrow> tags_ok st' = tags_ok st"
  by (simp add: tag_tables_def tags_ok_def tags_unique_def)

lemma tag_tables_append_log [simp]: "tag_tables (append_log e st) = tag_tables st"
  by (simp add: tag_tables_def)

lemma tag_tables_save_source [simp]: "tag_tables (snd (save_source name url st)) = tag_tables st"
  by (simp add: save_source_def tag_tables_def append_log_def Let_def split: option.splits)

lemma tag_tables_save_article_body [simp]:
  "tag_tables (snd (save_article_body w now ttl lnk pub cnt src sn st)) = tag_tables st"
  by (simp add: save_article_body_def tag_tables_def append_log_def Let_def split: option.splits)

lemma tag_tables_remove_tag [simp]: "tag_tables (remove_tag i t st) = tag_tables st"
  by (simp add: remove_tag_def tag_tables_def split: option.splits)

lemma tag_tables_remove_tags [simp]: "tag_tables (remove_tags i ts st) = tag_tables st"
  unfolding remove_tags_def by (induction ts arbitrary: st) simp_all

lemma tag_tables_fetch_full_article [simp]:
  "tag_tables (snd (fetch_full_article w l st)) = tag_tables st"
  by (simp add: fetch_full_article_def tag_tables_def append_log_def Let_def
      split: http_outcome.splits)

lemma tag_tables_resolve_content [simp]:
  "tag_tables (snd (resolve_content w now e st)) = tag_tables st"
proof -
  have "tag_tables st1 = tag_tables st" if "fetch_full_article w l st = (c, st1)" for l c st1
    using tag_tables_fetch_full_article [of w l st] that by simp
  then show ?thesis
    by (auto simp: resolve_content_def split: sum.splits bool.splits option.splits prod.splits)
qed

lemma tag_tables_process_entry [simp]:
  "tag_tables (snd (process_entry w now save_now src e st)) = tag_tables st"
proof -
  obtain r st1 where rc: "resolve_content w now e st = (r, st1)"
    by (cases "resolve_content w now e st")
  then have "tag_tables st1 = tag_tables st"
    using tag_tables_resolve_content [of w now e st] by simp
  with rc show ?thesis
    by (cases r) (auto simp: process_entry_def Let_def save_article_def)
qed

lemma tag_tables_group_by_month [simp]:
  "tag_tables (snd (group_by_month w as d st)) = tag_tables st"
  by (induction as arbitrary: d st) (simp_all split: option.splits)

lemma tag_tables_write_archives [simp]:
  "tag_tables (snd (write_archives w d st)) = tag_tables st"
  by (induction w d st rule: write_archives.induct) (simp add: Let_def tag_tables_def append_log_def)+

lemma tag_tables_archive [simp]:
  "tag_tables (snd (archive_old_articles w now days st)) = tag_tables st"
proof (cases "old_articles w now days st = []")
  case True
  then show ?thesis by (simp add: archive_old_articles_def)
next
  case False
  let ?olds = "old_articles w now days st"
  obtain d st1 where g: "group_by_month w ?olds [] st = (d, st1)"
    by (cases "group_by_month w ?olds [] st")
  obtain r st2 where wr: "write_archives w d st1 = (r, st2)"
    by (cases "write_archives w d st1")
  have "tag_tables st2 = tag_tables st"
    using tag_tables_group_by_month [of w ?olds "[]" st] tag_tables_write_archives [of w d st1]
      g wr by simp
  with False g wr show ?thesis
    by (cases r)
       (simp_all add: archive_old_articles_def delete_articles_def Let_def tag_tables_def
          append_log_def)
qed

lemma tags_ok_add_tag:
  assumes "tags_ok st"
  shows "tags_ok (add_tag i t st)"
proof -
  let ?st1 = "if t \<in> snd ` set (tags st) then st
              else st\<lparr>tags := tags st @ [(Suc (seq_tags st), t)], seq_tags := Suc (seq_tags st)\<rparr>"
  have 1: "tags_ok ?st1"
  proof (cases "t \<in> snd ` set (tags st)")
    case True
    with assms show ?thesis by simp
  next
    case False
    have "Suc (seq_tags st) \<notin> fst ` set (tags st)"
      using assms unfolding tags_ok_def by force
    moreover have "\<forall>p \<in> set (tags st). fst p \<le> Suc (seq_tags st)"
      using assms unfolding tags_ok_def by force
    ultimately show ?thesis
      using assms False by (simp add: tags_ok_def tags_unique_def)
  qed
  have "tag_tables (add_tag i t st) = tag_tables ?st1"
    by (simp add: add_tag_def Let_def tag_tables_def split: option.splits)
  with 1 show ?thesis
    by (simp only: tags_ok_cong [of "add_tag i t st" ?st1])
qed

lemma tags_ok_add_tags:
  "tags_ok st \<Longrightarrow> tags_ok (add_tags i ts st)"
  unfolding add_tags_def by (induction ts arbitrary: st) (simp_all add: tags_ok_add_tag)

lemma tags_ok_run_op:
  assumes "tags_ok st"
  shows "tags_ok (run_op w op st)"
proof (cases op)
  case (AddTags i ts)
  with assms show ?thesis by (simp add: tags_ok_add_tags)
next
  case (SaveArticle now ttl lnk pub cnt src sn)
  then have "tag_tables (run_op w op st) = tag_tables st"
    by (simp add: save_article_def)
  with assms show ?thesis by (simp only: tags_ok_cong [of "run_op w op st" st])
next
  case (ProcessEntry now save_now src e)
  then have "tag_tables (run_op w op st) = tag_tables st" by simp
  with assms show ?thesis by (simp only: tags_ok_cong [of "run_op w op st" st])
next
  case (ArchiveOldArticles now days)
  then have "tag_tables (run_op w op st) = tag_tables st" by simp
  with assms show ?thesis by (simp only: tags_ok_cong [of "run_op w op st" st])
next
  case (RemoveTags i ts)
  then have "tag_tables (run_op w op st) = tag_tables st" by simp
  with assms show ?thesis by (simp only: tags_ok_cong [of "run_op w op st" st])
next
  case (SaveSource name url)
  then have "tag_tables (run_op w op st) = tag_tables st" by simp
  with assms show ?thesis by (simp only: tags_ok_cong [of "run_op w op st" st])
qed (use assms in \<open>simp_all add: tags_ok_def tags_unique_def initialize_db_def
      update_source_name_def delete_source_def\<close>)

subsection \<open>Rows that SQLite dates and \<open>dateutil\<close> does not\<close>

text \<open>
  The deletion takes its ids from all selected rows. A row that the candidate query
  selects and whose \<open>published\<close> text \<open>dateutil\<close> then rejects is logged, joins no
  group, is written to no file and is deleted with the others.
\<close>

lemma archive_deletes_rows_dateutil_rejects:
  "map aid (articles one_misdated_article) = [1] \<and>
   map aid (old_articles lenient_sqlite_world 1719792000000000 30 one_misdated_article) = [1] \<and>
   articles (snd (archive_old_articles lenient_sqlite_world 1719792000000000 30
      one_misdated_article)) = [] \<and>
   archive_files (snd (archive_old_articles lenient_sqlite_world 1719792000000000 30
      one_misdated_article)) = [] \<and>
   log (snd (archive_old_articles lenient_sqlite_world 1719792000000000 30
      one_misdated_article)) =
     [ArticleSaved ''Misdated'', ErrorParsingDate 1, RemovedArticles 1]"
  by (simp add: one_misdated_article_def lenient_sqlite_world_def example_world_def
      save_article_def save_article_body_def fresh_db_def append_log_def
      archive_old_articles_def old_articles_def is_old_def cutoff_iso_def
      microseconds_per_day_def delete_articles_def)

end
